theory Spec2Isabelle
  imports Complex_Main "HOL-Library.Char_ord" "HOL-Library.List_Lexorder" "HOL-Library.Sublist"
begin

section \<open>JavaScript array helpers used by the list handlers\<close>

text \<open>
  \<^verbatim>\<open>Array.prototype.slice(start, end)\<close>: a negative index counts from the end of the
  array, both indices are clamped to the array, and an empty range gives the empty array.
\<close>

definition slice :: "int \<Rightarrow> int \<Rightarrow> 'a list \<Rightarrow> 'a list" where
  "slice start fin xs =
     (let len = int (length xs);
          k = (if start < 0 then max (len + start) 0 else min start len);
          final = (if fin < 0 then max (len + fin) 0 else min fin len)
      in take (nat (final - k)) (drop (nat k) xs))"

text \<open>
  \<^verbatim>\<open>Array.prototype.findIndex(p)\<close>: the index of the first element satisfying \<open>p\<close>,
  or \<open>-1\<close> when there is none.
\<close>

fun findIndex :: "('a \<Rightarrow> bool) \<Rightarrow> 'a list \<Rightarrow> int" where
  "findIndex p [] = - 1"
| "findIndex p (x # xs) =
     (if p x then 0 else (let i = findIndex p xs in if i < 0 then - 1 else i + 1))"

section \<open>Push messages as the views see them\<close>

text \<open>
  \<^verbatim>\<open>type WebSocketMessage = { type: 'event' | 'session' | 'system' | 'stats', data: any }\<close>.
  Each view reads \<open>data\<close> at the type of its own entities.
\<close>

datatype message_type = Event_msg | Session_msg | System_msg | Stats_msg

record 'd WebSocketMessage =
  mtype :: message_type
  data :: 'd

section \<open>RecentEvents: the dashboard's recent-events list\<close>

datatype event_kind = Entry | Exit | Denied

text \<open>
  \<^verbatim>\<open>interface Event\<close> of RecentEvents.tsx. The timestamp is the ISO-8601 string the
  backend sends; strings of one format and zone compare lexicographically as the instants
  they denote, which is the order used for "more recent" below.
\<close>

record event =
  id_ev :: int
  event_type :: event_kind
  license_plate :: string
  timestamp :: string
  camera_location :: string
  confidence :: "real option"

text \<open>
  The subscriber of RecentEvents.tsx:
  \<^verbatim>\<open>if (message.type === 'event')
     setEvents((prevEvents) => [message.data, ...prevEvents.slice(0, 5)])\<close>
\<close>

definition RecentEvents_onMessage :: "event WebSocketMessage \<Rightarrow> event list \<Rightarrow> event list" where
  "RecentEvents_onMessage message prevEvents =
     (if mtype message = Event_msg then data message # slice 0 5 prevEvents else prevEvents)"

text \<open>\<^verbatim>\<open>setEvents(response.items || [])\<close> when \<^verbatim>\<open>apiService.getEvents\<close> resolves.\<close>

definition or_empty :: "'a list option \<Rightarrow> 'a list" where
  "or_empty items = (case items of None \<Rightarrow> [] | Some xs \<Rightarrow> xs)"

text \<open>The list after a sequence of push messages, delivered in order.\<close>

definition RecentEvents_run :: "event WebSocketMessage list \<Rightarrow> event list \<Rightarrow> event list" where
  "RecentEvents_run messages snapshot =
     foldl (\<lambda>evs m. RecentEvents_onMessage m evs) snapshot messages"

definition event_message :: "event \<Rightarrow> event WebSocketMessage" where
  "event_message e = \<lparr>mtype = Event_msg, data = e\<rparr>"

section \<open>Sessions page: the session table\<close>

datatype session_status = Active | Completed | Expired

record vehicle_details =
  owner_name :: string
  vehicle_type :: string
  vehicle_make :: "string option"
  vehicle_model :: "string option"

text \<open>\<^verbatim>\<open>interface Session\<close> of Sessions.tsx; the identity is the string \<open>id\<close>.\<close>

record session =
  id_s :: string
  vehicle_id :: string
  plate_number :: string
  entry_time :: string
  exit_time :: "string option"
  duration_minutes :: "real option"
  entry_camera_id :: string
  exit_camera_id :: "string option"
  status :: session_status
  vehicle_details :: "vehicle_details option"
  entry_confidence :: real
  exit_confidence :: "real option"

text \<open>
  \<^verbatim>\<open>handleSessionUpdate\<close> of Sessions.tsx, the updater passed to \<open>setSessions\<close>:
  \<^verbatim>\<open>const index = prev.findIndex(s => s.id === session.id)
  if (index >= 0) { const updated = [...prev]; updated[index] = session; return updated }
  return [session, ...prev.slice(0, pagination.pageSize - 1)]\<close>
  The index is within the list whenever it is non-negative, so the assignment never
  extends the array.
\<close>

definition handleSessionUpdate :: "int \<Rightarrow> session \<Rightarrow> session list \<Rightarrow> session list" where
  "handleSessionUpdate pageSize session prev =
     (let index = findIndex (\<lambda>s. id_s s = id_s session) prev
      in if index \<ge> 0 then prev[nat index := session]
         else session # slice 0 (pageSize - 1) prev)"

definition Sessions_run :: "int \<Rightarrow> session list \<Rightarrow> session list \<Rightarrow> session list" where
  "Sessions_run pageSize updates snapshot =
     foldl (\<lambda>prev s. handleSessionUpdate pageSize s prev) snapshot updates"

text \<open>Descending timestamp order: no entry is preceded by a strictly older one.\<close>

definition newest_first :: "event list \<Rightarrow> bool" where
  "newest_first evs = sorted_wrt (\<lambda>a b. timestamp b \<le> timestamp a) evs"


text \<open>A test entry: event \<open>i\<close> seen at time \<open>t\<close>.\<close>

definition ev :: "int \<Rightarrow> string \<Rightarrow> event" where
  "ev i t = \<lparr>id_ev = i, event_type = Entry, license_plate = ''ABC123'', timestamp = t,
             camera_location = ''entry gate'', confidence = None\<rparr>"

text \<open>A test session with identity \<open>i\<close> and plate \<open>plate\<close>.\<close>

definition sess :: "string \<Rightarrow> string \<Rightarrow> session" where
  "sess i plate = \<lparr>id_s = i, vehicle_id = ''v1'', plate_number = plate,
                   entry_time = ''2024-05-01T10:00:00Z'', exit_time = None, duration_minutes = None,
                   entry_camera_id = ''cam-1'', exit_camera_id = None, status = Active,
                   vehicle_details = None, entry_confidence = 1, exit_confidence = None\<rparr>"

text \<open>The events a message sequence pushes, in arrival order.\<close>

definition pushed :: "'d WebSocketMessage list \<Rightarrow> 'd list" where
  "pushed messages = map data (filter (\<lambda>m. mtype m = Event_msg) messages)"

subsection \<open>RecentEvents as a view: pushes interleaved with the REST fetch\<close>

text \<open>
  \<^verbatim>\<open>fetchEvents\<close> sets \<open>loading\<close>, awaits \<^verbatim>\<open>apiService.getEvents({ limit: 6, offset: 0 })\<close>
  and, when the request resolves, overwrites the list with
  \<^verbatim>\<open>setEvents(response.items || [])\<close>; when it rejects it logs and leaves the list alone;
  both ways end with \<^verbatim>\<open>setLoading(false)\<close>. Between the call and its resolution the
  event loop may run the subscriber any number of times.
\<close>

record RecentEvents_state =
  events :: "event list"
  loading :: bool

datatype RecentEvents_step =
    Fetch_started
  | Fetch_resolved "event list option"
  | Fetch_rejected
  | Message "event WebSocketMessage"

fun RecentEvents_do :: "RecentEvents_state \<Rightarrow> RecentEvents_step \<Rightarrow> RecentEvents_state" where
  "RecentEvents_do st Fetch_started = st\<lparr>loading := True\<rparr>"
| "RecentEvents_do st (Fetch_resolved items) = st\<lparr>events := or_empty items, loading := False\<rparr>"
| "RecentEvents_do st Fetch_rejected = st\<lparr>loading := False\<rparr>"
| "RecentEvents_do st (Message m) = st\<lparr>events := RecentEvents_onMessage m (events st)\<rparr>"

text \<open>The messages among a sequence of steps, in the order of their delivery, and the
  steps at which a fetch resolves.\<close>

fun delivered :: "RecentEvents_step list \<Rightarrow> event WebSocketMessage list" where
  "delivered [] = []"
| "delivered (Message m # steps) = m # delivered steps"
| "delivered (s # steps) = delivered steps"

fun is_Fetch_resolved :: "RecentEvents_step \<Rightarrow> bool" where
  "is_Fetch_resolved (Fetch_resolved items) = True"
| "is_Fetch_resolved s = False"

definition RecentEvents_mounted :: RecentEvents_state where
  "RecentEvents_mounted = \<lparr>events = [], loading = True\<rparr>"

section \<open>ActiveSessions: the dashboard's active-session list\<close>

text \<open>\<^verbatim>\<open>interface Session\<close> of ActiveSessions.tsx (numeric identity).\<close>

record active_vehicle =
  av_license_plate :: string
  av_vehicle_type :: "string option"
  av_owner_name :: "string option"

record active_session =
  id_as :: int
  as_vehicle_id :: int
  as_license_plate :: string
  as_entry_time :: string
  as_exit_time :: "string option"
  as_duration_minutes :: "real option"
  parking_fee :: "real option"
  vehicle :: "active_vehicle option"

text \<open>
  The subscriber of ActiveSessions.tsx never reads the message's data:
  \<^verbatim>\<open>if (message.type === 'session' || message.type === 'event') fetchSessions()\<close>,
  and \<^verbatim>\<open>fetchSessions\<close> overwrites the list with
  \<^verbatim>\<open>setSessions(response.items || [])\<close> when its request resolves. \<open>in_flight\<close>
  counts the requests sent and not yet settled.
\<close>

record ActiveSessions_state =
  sessions :: "active_session list"
  as_loading :: bool
  in_flight :: nat

datatype 'd ActiveSessions_step =
    AS_message "'d WebSocketMessage"
  | AS_resolved "active_session list option"
  | AS_rejected

definition fetchSessions :: "ActiveSessions_state \<Rightarrow> ActiveSessions_state" where
  "fetchSessions st = st\<lparr>as_loading := True, in_flight := Suc (in_flight st)\<rparr>"

fun ActiveSessions_do :: "ActiveSessions_state \<Rightarrow> 'd ActiveSessions_step \<Rightarrow> ActiveSessions_state" where
  "ActiveSessions_do st (AS_message m) =
     (if mtype m = Session_msg \<or> mtype m = Event_msg then fetchSessions st else st)"
| "ActiveSessions_do st (AS_resolved items) =
     st\<lparr>sessions := or_empty items, as_loading := False, in_flight := in_flight st - 1\<rparr>"
| "ActiveSessions_do st AS_rejected = st\<lparr>as_loading := False, in_flight := in_flight st - 1\<rparr>"

text \<open>The messages on which the subscriber calls \<^verbatim>\<open>fetchSessions()\<close>, and the steps at
  which a fetch resolves.\<close>

definition starts_fetch :: "'d WebSocketMessage \<Rightarrow> bool" where
  "starts_fetch m = (mtype m = Session_msg \<or> mtype m = Event_msg)"

fun is_AS_resolved :: "'d ActiveSessions_step \<Rightarrow> bool" where
  "is_AS_resolved (AS_resolved items) = True"
| "is_AS_resolved s = False"

section \<open>WebSocketService\<close>

subsection \<open>Values on the wire\<close>

text \<open>
  The handler runs \<^verbatim>\<open>JSON.parse(event.data)\<close> and hands the result on without any
  check, so the model keeps whatever JSON value the frame holds. A frame body is
  represented by what \<^verbatim>\<open>JSON.parse\<close> makes of it: a \<open>SyntaxError\<close>, or the value.
  An object lists its properties, each key once.
\<close>

datatype json =
    JNull
  | JBool bool
  | JNumber real
  | JString string
  | JArray "json list"
  | JObject "(string \<times> json) list"

datatype frame_body = Not_JSON | JSON json

datatype js_error = SyntaxError | TypeError | Callback_error nat

text \<open>
  Reading a property: \<open>undefined\<close> is \<open>None\<close>. Reading from \<open>null\<close> or \<open>undefined\<close>
  throws a \<open>TypeError\<close>; an object gives the property or \<open>undefined\<close>; the other values
  have none of the properties the service reads (\<open>type\<close>, \<open>data\<close>, \<open>event_type\<close>,
  \<open>license_plate\<close>).
\<close>

fun property :: "json option \<Rightarrow> string \<Rightarrow> js_error + json option" where
  "property None k = Inl TypeError"
| "property (Some JNull) k = Inl TypeError"
| "property (Some (JObject kvs)) k = Inr (map_of kvs k)"
| "property (Some v) k = Inr None"

text \<open>
  What the type \<^verbatim>\<open>WebSocketMessage\<close> asks of a parsed frame: an object whose \<open>type\<close>
  is one of the four tags and that has a \<open>data\<close> property.
\<close>

definition is_WebSocketMessage :: "json \<Rightarrow> bool" where
  "is_WebSocketMessage v =
     (case v of
        JObject kvs \<Rightarrow>
          map_of kvs ''type'' \<in> Some ` JString ` {''event'', ''session'', ''system'', ''stats''}
          \<and> map_of kvs ''data'' \<noteq> None
      | _ \<Rightarrow> False)"

definition parseable_as_envelope :: "frame_body \<Rightarrow> bool" where
  "parseable_as_envelope body = (case body of Not_JSON \<Rightarrow> False | JSON v \<Rightarrow> is_WebSocketMessage v)"

subsection \<open>The service and what it acts on\<close>

datatype readyState = CONNECTING | OPEN | CLOSING | CLOSED

datatype console_line = Log string | Error string

text \<open>The three toasts of \<^verbatim>\<open>handleEventMessage\<close>, each with the plate it interpolates.\<close>

datatype toast =
    Vehicle_entered "json option"
  | Vehicle_exited "json option"
  | Access_denied "json option"

text \<open>
  The private fields of the class. \<open>ws\<close> refers to a socket by its position in the list
  of sockets constructed so far. \<open>callbacks\<close> is the \<^verbatim>\<open>Set<WebSocketCallback>\<close>: a
  callback is a function object, known here by a number that stands for its identity.
  The set is kept as ECMAScript specifies it, a list of entries in insertion order in
  which \<open>delete\<close> empties the entry in place (\<open>None\<close>) and \<open>add\<close> appends unless the
  value is present. \<open>reconnectTimer\<close> says whether a timeout is armed.
\<close>

record WebSocketService =
  ws :: "nat option"
  callbacks :: "nat option list"
  reconnectTimer :: bool
  isIntentionallyClosed :: bool

text \<open>
  The service together with what it acts on: the sockets constructed so far with their
  \<open>readyState\<close>, the console, the toasts shown, and the callback invocations made, in
  order.
\<close>

record world = WebSocketService +
  sockets :: "readyState list"
  console :: "console_line list"
  toasts :: "toast list"
  invoked :: "(nat \<times> json) list"

definition initial :: world where
  "initial = \<lparr>ws = None, callbacks = [], reconnectTimer = False, isIntentionallyClosed = False,
              sockets = [], console = [], toasts = [], invoked = []\<rparr>"

text \<open>\<^verbatim>\<open>this.ws?.readyState\<close>, \<open>None\<close> when \<open>ws\<close> is \<open>null\<close>.\<close>

definition ws_readyState :: "world \<Rightarrow> readyState option" where
  "ws_readyState w =
     (case ws w of
        None \<Rightarrow> None
      | Some i \<Rightarrow> if i < length (sockets w) then Some (sockets w ! i) else None)"

definition isConnected :: "world \<Rightarrow> bool" where
  "isConnected w = (ws_readyState w = Some OPEN)"

definition say :: "console_line \<Rightarrow> world \<Rightarrow> world" where
  "say line w = w\<lparr>console := console w @ [line]\<rparr>"

text \<open>
  \<^verbatim>\<open>reconnect()\<close>: nothing when a timer is armed or the close was intentional; otherwise
  it logs and arms the timer (5000 ms).
\<close>

definition reconnect :: "world \<Rightarrow> world" where
  "reconnect w =
     (if reconnectTimer w \<or> isIntentionallyClosed w then w
      else (say (Log ''Attempting to reconnect in 5s...'') w)\<lparr>reconnectTimer := True\<rparr>)"

text \<open>
  \<^verbatim>\<open>connect()\<close>. The only guard is \<^verbatim>\<open>this.ws?.readyState === WebSocket.OPEN\<close>.
  Otherwise \<^verbatim>\<open>new WebSocket(WS_URL)\<close> makes a socket in state \<open>CONNECTING\<close>, stored in
  \<open>ws\<close>, and the four handlers are attached to it; \<open>constructible\<close> says whether the
  constructor returns (it throws on a URL it rejects, and the \<open>catch\<close> logs and calls
  \<^verbatim>\<open>reconnect()\<close>).
\<close>

definition connect :: "bool \<Rightarrow> world \<Rightarrow> world" where
  "connect constructible w =
     (if ws_readyState w = Some OPEN then say (Log ''WebSocket already connected'') w
      else if constructible
        then w\<lparr>ws := Some (length (sockets w)), sockets := sockets w @ [CONNECTING]\<rparr>
        else reconnect (say (Error ''Error connecting to WebSocket:'') w))"

text \<open>The timeout armed by \<^verbatim>\<open>reconnect()\<close> fires.\<close>

definition reconnect_timeout :: "bool \<Rightarrow> world \<Rightarrow> world" where
  "reconnect_timeout constructible w = connect constructible (w\<lparr>reconnectTimer := False\<rparr>)"

text \<open>Socket \<open>i\<close> opens and its \<^verbatim>\<open>onopen\<close> handler runs.\<close>

definition ws_onopen :: "nat \<Rightarrow> world \<Rightarrow> world" where
  "ws_onopen i w =
     (say (Log ''WebSocket connected'') (w\<lparr>sockets := (sockets w)[i := OPEN]\<rparr>))
       \<lparr>isIntentionallyClosed := False, reconnectTimer := False\<rparr>"

text \<open>Socket \<open>i\<close> closes and its \<^verbatim>\<open>onclose\<close> handler runs.\<close>

definition ws_onclose :: "nat \<Rightarrow> world \<Rightarrow> world" where
  "ws_onclose i w =
     (let w1 = (say (Log ''WebSocket disconnected'') (w\<lparr>sockets := (sockets w)[i := CLOSED]\<rparr>))
                 \<lparr>ws := None\<rparr>
      in if \<not> isIntentionallyClosed w1 then reconnect w1 else w1)"

text \<open>
  \<^verbatim>\<open>disconnect()\<close>: sets the flag, clears the timer, and closes and forgets the current
  socket, if any. \<^verbatim>\<open>WebSocket.close()\<close> moves a socket that is connecting or open to
  \<open>CLOSING\<close> and leaves one that is closing or closed as it is.
\<close>

definition close :: "readyState \<Rightarrow> readyState" where
  "close s = (if s = CLOSING \<or> s = CLOSED then s else CLOSING)"

definition disconnect :: "world \<Rightarrow> world" where
  "disconnect w =
     (let w1 = w\<lparr>isIntentionallyClosed := True, reconnectTimer := False\<rparr>
      in case ws w1 of
           None \<Rightarrow> w1
         | Some i \<Rightarrow>
             w1\<lparr>ws := None,
                sockets := (if i < length (sockets w1)
                            then (sockets w1)[i := close (sockets w1 ! i)]
                            else sockets w1)\<rparr>)"

subsection \<open>The callback set\<close>

definition Set_add :: "nat \<Rightarrow> nat option list \<Rightarrow> nat option list" where
  "Set_add c entries = (if Some c \<in> set entries then entries else entries @ [Some c])"

definition Set_delete :: "nat \<Rightarrow> nat option list \<Rightarrow> nat option list" where
  "Set_delete c entries = map (\<lambda>e. if e = Some c then None else e) entries"

text \<open>The members of the set, in insertion order.\<close>

definition members :: "nat option list \<Rightarrow> nat list" where
  "members entries = List.map_filter (\<lambda>e. e) entries"

text \<open>
  \<^verbatim>\<open>subscribe(callback)\<close> adds the callback and returns the closure
  \<^verbatim>\<open>() => { this.callbacks.delete(callback) }\<close>; \<open>unsubscribe c\<close> is a call of the
  closure that \<open>subscribe c\<close> returned.
\<close>

definition subscribe :: "nat \<Rightarrow> world \<Rightarrow> world" where
  "subscribe c w = w\<lparr>callbacks := Set_add c (callbacks w)\<rparr>"

definition unsubscribe :: "nat \<Rightarrow> world \<Rightarrow> world" where
  "unsubscribe c w = w\<lparr>callbacks := Set_delete c (callbacks w)\<rparr>"

subsection \<open>Delivery\<close>

text \<open>
  What a subscriber does with a message, as far as the service can see: the unsubscribe
  handles it calls (its own or others') and whether it then throws. The callbacks of
  this repository (RecentEvents, ActiveSessions, Dashboard, Events) update their
  component's state and touch nothing of the service; none subscribes during delivery,
  and the model does not cover a callback that does.
\<close>

record callback_effect =
  unsubscribed :: "nat list"
  raised :: bool

type_synonym subscribers = "nat \<Rightarrow> json \<Rightarrow> callback_effect"

definition invoke :: "subscribers \<Rightarrow> nat \<Rightarrow> json \<Rightarrow> world \<Rightarrow> bool \<times> world" where
  "invoke subs c message w =
     (raised (subs c message),
      fold unsubscribe (unsubscribed (subs c message)) (w\<lparr>invoked := invoked w @ [(c, message)]\<rparr>))"

text \<open>
  \<^verbatim>\<open>this.callbacks.forEach((callback) => callback(message))\<close>, as
  \<open>Set.prototype.forEach\<close> runs: an index walks the entry list, an emptied entry is
  skipped, the length is read again after every call, and a callback that throws ends
  the walk with its exception.
\<close>

function callbacks_forEach :: "subscribers \<Rightarrow> json \<Rightarrow> nat \<Rightarrow> world \<Rightarrow> js_error option \<times> world" where
  "callbacks_forEach subs message index w =
     (if index < length (callbacks w) then
        (case callbacks w ! index of
           None \<Rightarrow> callbacks_forEach subs message (Suc index) w
         | Some c \<Rightarrow>
             (let r = invoke subs c message w
              in if fst r then (Some (Callback_error c), snd r)
                 else callbacks_forEach subs message (Suc index) (snd r)))
      else (None, w))"
  by pat_completeness auto

lemma length_Set_delete: "length (Set_delete c entries) = length entries"
  by (simp add: Set_delete_def)

lemma length_callbacks_fold_unsubscribe:
  "length (callbacks (fold unsubscribe cs w)) = length (callbacks w)"
  by (induction cs arbitrary: w) (simp_all add: unsubscribe_def length_Set_delete)

lemma length_callbacks_invoke:
  "length (callbacks (snd (invoke subs c message w))) = length (callbacks w)"
  by (simp add: invoke_def length_callbacks_fold_unsubscribe)

termination callbacks_forEach
  by (relation "measure (\<lambda>(subs, message, index, w). length (callbacks w) - index)")
     (auto simp: length_callbacks_invoke)

declare callbacks_forEach.simps [simp del]

text \<open>
  The template literals of \<^verbatim>\<open>handleEventMessage\<close> convert \<^verbatim>\<open>data.license_plate\<close> to a
  string. \<open>undefined\<close>, \<open>null\<close>, booleans, numbers and strings always convert. An object
  converts through \<open>Object.prototype.toString\<close> unless it has a property of its own
  named \<open>toString\<close>: a parsed value is never callable, \<open>valueOf\<close> gives the object
  back, and the conversion throws a \<open>TypeError\<close>. An array converts by joining its
  elements, each converted in turn (\<open>null\<close> as the empty string).
\<close>

fun stringifies :: "json \<Rightarrow> bool" where
  "stringifies (JObject kvs) = (map_of kvs ''toString'' = None)"
| "stringifies (JArray vs) = list_all stringifies vs"
| "stringifies v = True"

text \<open>\<^verbatim>\<open>toast.success(`...${plate}`)\<close> and \<^verbatim>\<open>toast.error(`...${plate}`)\<close>: the argument is
  built first, so a plate that does not convert throws before any toast is shown.\<close>

definition show_toast :: "(json option \<Rightarrow> toast) \<Rightarrow> json option \<Rightarrow> world \<Rightarrow> js_error option \<times> world" where
  "show_toast kind plate w =
     (case plate of
        None \<Rightarrow> (None, w\<lparr>toasts := toasts w @ [kind plate]\<rparr>)
      | Some p \<Rightarrow> if stringifies p then (None, w\<lparr>toasts := toasts w @ [kind plate]\<rparr>)
                  else (Some TypeError, w))"

text \<open>
  \<^verbatim>\<open>handleEventMessage(data)\<close>: \<^verbatim>\<open>switch (data.event_type)\<close> with a toast for
  \<open>'entry'\<close>, \<open>'exit'\<close> and \<open>'denied'\<close>; \<^verbatim>\<open>data.license_plate\<close> is read only in those
  three cases.
\<close>

definition handleEventMessage :: "json option \<Rightarrow> world \<Rightarrow> js_error option \<times> world" where
  "handleEventMessage d w =
     (case property d ''event_type'' of
        Inl e \<Rightarrow> (Some e, w)
      | Inr t \<Rightarrow>
          (let plate = (case property d ''license_plate'' of Inl e \<Rightarrow> None | Inr p \<Rightarrow> p)
           in if t = Some (JString ''entry'') then show_toast Vehicle_entered plate w
              else if t = Some (JString ''exit'') then show_toast Vehicle_exited plate w
              else if t = Some (JString ''denied'') then show_toast Access_denied plate w
              else (None, w)))"

text \<open>
  The body of the \<open>try\<close> of \<^verbatim>\<open>ws.onmessage\<close>: parse, deliver to every callback, then
  the toast for an \<open>'event'\<close> message. The first exception ends it.
\<close>

definition ws_onmessage_try :: "subscribers \<Rightarrow> frame_body \<Rightarrow> world \<Rightarrow> js_error option \<times> world" where
  "ws_onmessage_try subs body w =
     (case body of
        Not_JSON \<Rightarrow> (Some SyntaxError, w)
      | JSON message \<Rightarrow>
          (case callbacks_forEach subs message 0 w of
             (Some e, w1) \<Rightarrow> (Some e, w1)
           | (None, w1) \<Rightarrow>
               (case property (Some message) ''type'' of
                  Inl e \<Rightarrow> (Some e, w1)
                | Inr t \<Rightarrow>
                    if t = Some (JString ''event'')
                    then handleEventMessage
                           (case property (Some message) ''data'' of Inl e \<Rightarrow> None | Inr d \<Rightarrow> d) w1
                    else (None, w1))))"

text \<open>
  \<^verbatim>\<open>ws.onmessage\<close>: the \<open>catch\<close> takes whatever the body threw and logs it with
  \<^verbatim>\<open>console.error('Error parsing WebSocket message:', error)\<close>; the handler itself always
  returns.
\<close>

definition ws_onmessage :: "subscribers \<Rightarrow> frame_body \<Rightarrow> world \<Rightarrow> world" where
  "ws_onmessage subs body w =
     (case ws_onmessage_try subs body w of
        (None, w1) \<Rightarrow> w1
      | (Some e, w1) \<Rightarrow> say (Error ''Error parsing WebSocket message:'') w1)"

text \<open>
  What can happen to the callback set, one step at a time: a component subscribes, a
  component calls an unsubscribe handle, or a frame arrives and is dispatched.
\<close>

datatype registry_op = Subscribe nat | Unsubscribe nat | Frame frame_body

fun registry_do :: "subscribers \<Rightarrow> world \<Rightarrow> registry_op \<Rightarrow> world" where
  "registry_do subs w (Subscribe c) = subscribe c w"
| "registry_do subs w (Unsubscribe c) = unsubscribe c w"
| "registry_do subs w (Frame body) = ws_onmessage subs body w"

text \<open>Test subscribers: all quiet; all quiet but \<open>r\<close>, which throws; all quiet but \<open>u\<close>,
  which calls its own unsubscribe handle.\<close>

definition quiet :: subscribers where
  "quiet c message = \<lparr>unsubscribed = [], raised = False\<rparr>"


definition leaver :: "nat \<Rightarrow> subscribers" where
  "leaver u c message = \<lparr>unsubscribed = (if c = u then [c] else []), raised = False\<rparr>"

text \<open>A well-formed push message: \<^verbatim>\<open>{"type": "event", "data": {"event_type": "entry",
  "license_plate": "ABC123"}}\<close>.\<close>

definition entry_message :: json where
  "entry_message =
     JObject [(''type'', JString ''event''),
              (''data'', JObject [(''event_type'', JString ''entry''),
                                  (''license_plate'', JString ''ABC123'')])]"

section \<open>Facts about the helpers\<close>

lemma slice_0_take: "0 \<le> n \<Longrightarrow> slice 0 n xs = take (nat n) xs"
  by (simp add: slice_def Let_def min_def)

lemma slice_0_neg: "n < 0 \<Longrightarrow> slice 0 n xs = take (length xs - nat (- n)) xs"
proof -
  assume n: "n < 0"
  have "nat (max (int (length xs) + n) 0) = length xs - nat (- n)"
    using n by (simp add: max_def) linarith
  then show ?thesis using n by (simp add: slice_def Let_def)
qed

lemma slice_0_prefix: "\<exists>k. slice 0 n xs = take k xs"
  by (cases "0 \<le> n") (auto simp: slice_0_take slice_0_neg)

lemma findIndex_none: "findIndex p xs < 0 \<longleftrightarrow> (\<forall>x \<in> set xs. \<not> p x)"
  by (induction xs) (auto simp: Let_def)

lemma findIndex_hit: "0 \<le> findIndex p xs \<Longrightarrow> p (xs ! nat (findIndex p xs))"
proof (induction xs)
  case Nil
  then show ?case by simp
next
  case (Cons x xs)
  show ?case
  proof (cases "p x")
    case True
    then show ?thesis by simp
  next
    case False
    with Cons.prems have nn: "0 \<le> findIndex p xs"
      by (simp add: Let_def split: if_splits)
    then have "nat (findIndex p xs + 1) = Suc (nat (findIndex p xs))" by simp
    with False nn Cons.IH show ?thesis by (simp add: Let_def)
  qed
qed

section \<open>Facts about the list handlers\<close>

lemma RecentEvents_push: "RecentEvents_onMessage (event_message e) prev = e # take 5 prev"
  by (simp add: RecentEvents_onMessage_def event_message_def slice_0_take)

lemma RecentEvents_run_snoc:
  "RecentEvents_run (ms @ [m]) snap = RecentEvents_onMessage m (RecentEvents_run ms snap)"
  by (simp add: RecentEvents_run_def)

lemma RecentEvents_length_step:
  "length prev \<le> 6 \<Longrightarrow> length (RecentEvents_onMessage m prev) \<le> 6"
  by (simp add: RecentEvents_onMessage_def slice_0_take)

lemma RecentEvents_run_length:
  "length snap \<le> 6 \<Longrightarrow> length (RecentEvents_run ms snap) \<le> 6"
  by (induction ms rule: rev_induct) (simp_all add: RecentEvents_run_def RecentEvents_length_step)

lemma handleSessionUpdate_hit:
  "0 \<le> findIndex (\<lambda>s. id_s s = id_s x) prev \<Longrightarrow>
   handleSessionUpdate n x prev = prev[nat (findIndex (\<lambda>s. id_s s = id_s x) prev) := x]"
  by (simp add: handleSessionUpdate_def Let_def)

lemma handleSessionUpdate_miss:
  "findIndex (\<lambda>s. id_s s = id_s x) prev < 0 \<Longrightarrow>
   handleSessionUpdate n x prev = x # slice 0 (n - 1) prev"
  by (simp add: handleSessionUpdate_def Let_def)

lemma handleSessionUpdate_ids_hit:
  assumes "0 \<le> findIndex (\<lambda>s. id_s s = id_s x) prev"
  shows "map id_s (handleSessionUpdate n x prev) = map id_s prev"
proof -
  let ?i = "nat (findIndex (\<lambda>s. id_s s = id_s x) prev)"
  have "id_s (prev ! ?i) = id_s x" using findIndex_hit [OF assms] by simp
  then have "(map id_s prev)[?i := id_s x] = map id_s prev"
    by (metis list_update_id length_map list_update_beyond not_le nth_map)
  then show ?thesis using assms by (simp add: handleSessionUpdate_hit map_update)
qed

lemma handleSessionUpdate_distinct:
  assumes "distinct (map id_s prev)"
  shows "distinct (map id_s (handleSessionUpdate n x prev))"
proof (cases "0 \<le> findIndex (\<lambda>s. id_s s = id_s x) prev")
  case True
  then show ?thesis using assms by (simp add: handleSessionUpdate_ids_hit)
next
  case False
  then have miss: "findIndex (\<lambda>s. id_s s = id_s x) prev < 0" by simp
  then have fresh: "id_s x \<notin> id_s ` set prev" by (auto simp: findIndex_none)
  obtain k where k: "slice 0 (n - 1) prev = take k prev" using slice_0_prefix by blast
  have "distinct (map id_s (take k prev))" using assms by (simp add: take_map [symmetric] del: take_map)
  moreover have "id_s x \<notin> id_s ` set (take k prev)" using fresh by (auto dest: in_set_takeD)
  ultimately show ?thesis using miss k by (simp add: handleSessionUpdate_miss)
qed

lemma Sessions_run_distinct:
  "distinct (map id_s snap) \<Longrightarrow> distinct (map id_s (Sessions_run n ups snap))"
  by (induction ups rule: rev_induct) (simp_all add: Sessions_run_def handleSessionUpdate_distinct)

lemma findIndex_update_hit:
  "p x \<Longrightarrow> 0 \<le> findIndex p xs \<Longrightarrow> findIndex p (xs[nat (findIndex p xs) := x]) = findIndex p xs"
proof (induction xs)
  case Nil
  then show ?case by simp
next
  case (Cons y ys)
  show ?case
  proof (cases "p y")
    case True
    with Cons.prems show ?thesis by simp
  next
    case False
    with Cons.prems have nn: "0 \<le> findIndex p ys"
      by (simp add: Let_def split: if_splits)
    then have eq: "nat (findIndex p ys + 1) = Suc (nat (findIndex p ys))" by simp
    from False nn have fi: "findIndex p (y # ys) = findIndex p ys + 1" by (simp add: Let_def)
    have "findIndex p (y # (ys[nat (findIndex p ys) := x])) = findIndex p ys + 1"
      using False nn Cons.IH [OF Cons.prems(1) nn] by (simp add: Let_def)
    then show ?thesis by (simp only: fi eq list_update_code)
  qed
qed

lemma handleSessionUpdate_idem:
  "handleSessionUpdate n x (handleSessionUpdate n x prev) = handleSessionUpdate n x prev"
proof (cases "0 \<le> findIndex (\<lambda>s. id_s s = id_s x) prev")
  case True
  let ?p = "\<lambda>s. id_s s = id_s x"
  let ?i = "nat (findIndex ?p prev)"
  have same: "findIndex ?p (prev[?i := x]) = findIndex ?p prev"
    using findIndex_update_hit [of ?p x prev] True by simp
  have "handleSessionUpdate n x (prev[?i := x]) = (prev[?i := x])[?i := x]"
    using True same by (simp add: handleSessionUpdate_def Let_def)
  then show ?thesis using True by (simp add: handleSessionUpdate_hit)
next
  case False
  then have miss: "findIndex (\<lambda>s. id_s s = id_s x) prev < 0" by simp
  have "handleSessionUpdate n x (x # slice 0 (n - 1) prev) = x # slice 0 (n - 1) prev"
    by (simp add: handleSessionUpdate_def)
  then show ?thesis using miss by (simp add: handleSessionUpdate_miss)
qed

lemma handleSessionUpdate_length:
  assumes "1 \<le> n" "int (length prev) \<le> n"
  shows "int (length (handleSessionUpdate n x prev)) \<le> n"
proof (cases "0 \<le> findIndex (\<lambda>s. id_s s = id_s x) prev")
  case True
  then show ?thesis using assms by (simp add: handleSessionUpdate_hit)
next
  case False
  then have miss: "findIndex (\<lambda>s. id_s s = id_s x) prev < 0" by simp
  show ?thesis using assms miss by (simp add: handleSessionUpdate_miss slice_0_take)
qed

lemma pushed_snoc:
  "pushed (ms @ [m]) = (if mtype m = Event_msg then pushed ms @ [data m] else pushed ms)"
  by (simp add: pushed_def)

lemma RecentEvents_run_pushed:
  "RecentEvents_run ms snap = (if pushed ms = [] then snap else take 6 (rev (pushed ms) @ snap))"
proof (induction ms rule: rev_induct)
  case Nil
  show ?case by (simp add: RecentEvents_run_def pushed_def)
next
  case (snoc m ms)
  show ?case
  proof (cases "mtype m = Event_msg")
    case False
    with snoc.IH show ?thesis
      by (simp add: RecentEvents_run_snoc RecentEvents_onMessage_def pushed_snoc)
  next
    case True
    have step: "RecentEvents_run (ms @ [m]) snap = data m # take 5 (RecentEvents_run ms snap)"
      using True by (simp add: RecentEvents_run_snoc RecentEvents_onMessage_def slice_0_take)
    have "take 5 (take 6 (rev (pushed ms) @ snap)) = take 5 (rev (pushed ms) @ snap)"
      by (simp only: take_take) simp
    with snoc.IH True show ?thesis
      by (simp add: step pushed_snoc)
  qed
qed

lemma distinct_map_take: "distinct (map f xs) \<Longrightarrow> distinct (map f (take n xs))"
  by (simp add: take_map [symmetric] del: take_map)

lemma RecentEvents_run_distinct:
  assumes "distinct (map id_ev (pushed ms @ snap))"
  shows "distinct (map id_ev (RecentEvents_run ms snap))"
proof -
  from assms have "distinct (map id_ev (rev (pushed ms) @ snap))"
    by (auto simp: rev_map [symmetric])
  then have "distinct (map id_ev (take 6 (rev (pushed ms) @ snap)))"
    by (rule distinct_map_take)
  moreover have "distinct (map id_ev snap)" using assms by simp
  ultimately show ?thesis by (simp add: RecentEvents_run_pushed)
qed

lemma RecentEvents_run_newest_first:
  assumes "newest_first (rev (pushed ms) @ snap)"
  shows "newest_first (RecentEvents_run ms snap)"
proof -
  from assms have "newest_first (take 6 (rev (pushed ms) @ snap))"
    unfolding newest_first_def by (rule sorted_wrt_take)
  moreover have "pushed ms = [] \<Longrightarrow> newest_first snap" using assms by simp
  ultimately show ?thesis by (simp add: RecentEvents_run_pushed)
qed

lemma Sessions_run_length:
  "1 \<le> n \<Longrightarrow> int (length snap) \<le> n \<Longrightarrow> int (length (Sessions_run n ups snap)) \<le> n"
  by (induction ups rule: rev_induct) (simp_all add: Sessions_run_def handleSessionUpdate_length)

lemma handleSessionUpdate_fresh:
  assumes "1 \<le> n" "id_s x \<notin> id_s ` set prev"
  shows "handleSessionUpdate n x prev = x # take (nat (n - 1)) prev"
proof -
  have "\<forall>y \<in> set prev. \<not> id_s y = id_s x" using assms(2) by (metis imageI)
  then have "findIndex (\<lambda>s. id_s s = id_s x) prev < 0" by (simp only: findIndex_none)
  then show ?thesis using assms(1) by (simp add: handleSessionUpdate_miss slice_0_take)
qed

lemma RecentEvents_run_Cons:
  "RecentEvents_run (m # ms) evs = RecentEvents_run ms (RecentEvents_onMessage m evs)"
  by (simp add: RecentEvents_run_def)

lemma RecentEvents_do_unresolved:
  "\<not> list_ex is_Fetch_resolved later \<Longrightarrow>
   events (foldl RecentEvents_do st later) = RecentEvents_run (delivered later) (events st)"
proof (induction later arbitrary: st)
  case Nil
  show ?case by (simp add: RecentEvents_run_def)
next
  case (Cons s later)
  from Cons.prems have unresolved: "\<not> list_ex is_Fetch_resolved later" by simp
  note ih = Cons.IH [OF unresolved]
  from Cons.prems show ?case
    by (cases s) (simp_all add: ih RecentEvents_run_Cons)
qed

lemma RecentEvents_do_resolved:
  "\<not> list_ex is_Fetch_resolved later \<Longrightarrow>
   events (foldl RecentEvents_do st (steps @ Fetch_resolved items # later))
     = RecentEvents_run (delivered later) (or_empty items)"
  by (simp add: RecentEvents_do_unresolved)

lemma ActiveSessions_do_unresolved:
  "\<not> list_ex is_AS_resolved later \<Longrightarrow> sessions (foldl ActiveSessions_do st later) = sessions st"
proof (induction later arbitrary: st)
  case Nil
  show ?case by simp
next
  case (Cons s later)
  from Cons.prems have unresolved: "\<not> list_ex is_AS_resolved later" by simp
  note ih = Cons.IH [OF unresolved]
  from Cons.prems show ?case
    by (cases s) (simp_all add: ih fetchSessions_def)
qed

lemma ActiveSessions_do_resolved:
  "\<not> list_ex is_AS_resolved later \<Longrightarrow>
   sessions (foldl ActiveSessions_do st (steps @ AS_resolved items # later)) = or_empty items"
  by (simp add: ActiveSessions_do_unresolved)

lemma ActiveSessions_in_flight:
  "in_flight (foldl ActiveSessions_do st (map AS_message ms))
     = in_flight st + length (filter starts_fetch ms)"
  by (induction ms arbitrary: st) (simp_all add: fetchSessions_def starts_fetch_def)

section \<open>Facts about the callback set and delivery\<close>

lemma members_Nil [simp]: "members [] = []"
  by (simp add: members_def map_filter_simps)

lemma members_Cons_None [simp]: "members (None # es) = members es"
  by (simp add: members_def map_filter_simps)

lemma members_Cons_Some [simp]: "members (Some c # es) = c # members es"
  by (simp add: members_def map_filter_simps)

lemma members_append [simp]: "members (es @ fs) = members es @ members fs"
  by (simp add: members_def map_filter_def)

lemma set_members: "c \<in> set (members es) \<longleftrightarrow> Some c \<in> set es"
proof (induction es)
  case Nil
  show ?case by simp
next
  case (Cons e es)
  then show ?case by (cases e) auto
qed

lemma members_Set_delete: "members (Set_delete c es) = removeAll c (members es)"
proof (induction es)
  case Nil
  show ?case by (simp add: Set_delete_def)
next
  case (Cons e es)
  then show ?case by (cases e) (auto simp: Set_delete_def)
qed

lemma members_Set_add:
  "members (Set_add c es) = (if c \<in> set (members es) then members es else members es @ [c])"
  by (simp add: Set_add_def set_members)

lemma drop_Set_delete: "drop k (Set_delete c es) = Set_delete c (drop k es)"
  by (simp add: Set_delete_def drop_map)

lemma callbacks_fold_unsubscribe:
  "callbacks (fold unsubscribe cs w) = fold Set_delete cs (callbacks w)"
  by (induction cs arbitrary: w) (simp_all add: unsubscribe_def)

lemma drop_fold_Set_delete: "drop k (fold Set_delete cs es) = fold Set_delete cs (drop k es)"
  by (induction cs arbitrary: es) (simp_all add: drop_Set_delete)

lemma members_fold_Set_delete:
  "members (fold Set_delete cs es) = filter (\<lambda>x. x \<notin> set cs) (members es)"
proof (induction cs arbitrary: es)
  case Nil
  show ?case by simp
next
  case (Cons c cs)
  have "filter (\<lambda>x. x \<notin> set cs) (removeAll c (members es)) = filter (\<lambda>x. x \<notin> set (c # cs)) (members es)"
    by (simp add: removeAll_filter_not_eq conj_commute eq_commute [of c] cong: filter_cong)
  then show ?case by (simp add: Cons.IH members_Set_delete)
qed

lemma fold_unsubscribe_other:
  "ws (fold unsubscribe cs w) = ws w" "sockets (fold unsubscribe cs w) = sockets w"
  "console (fold unsubscribe cs w) = console w" "toasts (fold unsubscribe cs w) = toasts w"
  "invoked (fold unsubscribe cs w) = invoked w"
  "reconnectTimer (fold unsubscribe cs w) = reconnectTimer w"
  "isIntentionallyClosed (fold unsubscribe cs w) = isIntentionallyClosed w"
  by (induction cs arbitrary: w) (simp_all add: unsubscribe_def)

lemma invoke_simps:
  "fst (invoke subs c m w) = raised (subs c m)"
  "invoked (snd (invoke subs c m w)) = invoked w @ [(c, m)]"
  "callbacks (snd (invoke subs c m w)) = fold Set_delete (unsubscribed (subs c m)) (callbacks w)"
  "ws (snd (invoke subs c m w)) = ws w" "sockets (snd (invoke subs c m w)) = sockets w"
  "console (snd (invoke subs c m w)) = console w" "toasts (snd (invoke subs c m w)) = toasts w"
  "reconnectTimer (snd (invoke subs c m w)) = reconnectTimer w"
  "isIntentionallyClosed (snd (invoke subs c m w)) = isIntentionallyClosed w"
  by (simp_all add: invoke_def fold_unsubscribe_other callbacks_fold_unsubscribe)

lemma members_drop_invoke:
  "members (drop k (callbacks (snd (invoke subs c m w)))) =
   filter (\<lambda>x. x \<notin> set (unsubscribed (subs c m))) (members (drop k (callbacks w)))"
  by (simp add: invoke_simps drop_fold_Set_delete members_fold_Set_delete)

lemma members_drop_None:
  "i < length es \<Longrightarrow> es ! i = None \<Longrightarrow> members (drop i es) = members (drop (Suc i) es)"
  by (metis Cons_nth_drop_Suc members_Cons_None)

lemma members_drop_Some:
  "i < length es \<Longrightarrow> es ! i = Some c \<Longrightarrow> members (drop i es) = c # members (drop (Suc i) es)"
  by (metis Cons_nth_drop_Suc members_Cons_Some)



lemma filter_self_only:
  assumes "set us \<subseteq> {x}" "x \<notin> set zs"
  shows "filter (\<lambda>y. y \<notin> set us) zs = zs"
  using assms by (induction zs) auto


lemma forEach_all_quiet:
  "members (drop i (callbacks w)) = xs \<Longrightarrow> distinct xs \<Longrightarrow>
   (\<forall>x \<in> set xs. \<not> raised (subs x m) \<and> set (unsubscribed (subs x m)) \<subseteq> {x}) \<Longrightarrow>
   fst (callbacks_forEach subs m i w) = None \<and>
   invoked (snd (callbacks_forEach subs m i w)) = invoked w @ map (\<lambda>x. (x, m)) xs \<and>
   members (callbacks (snd (callbacks_forEach subs m i w))) =
     filter (\<lambda>x. \<not> (x \<in> set xs \<and> x \<in> set (unsubscribed (subs x m)))) (members (callbacks w))"
proof (induction subs m i w arbitrary: xs rule: callbacks_forEach.induct)
  case (1 subs m i w)
  show ?case
  proof (cases "i < length (callbacks w)")
    case False
    with "1.prems"(1) show ?thesis by (simp add: callbacks_forEach.simps [of subs m i w])
  next
    case True
    show ?thesis
    proof (cases "callbacks w ! i")
      case None
      have "members (drop (Suc i) (callbacks w)) = xs"
        using members_drop_None [OF True None] "1.prems"(1) by simp
      from "1.IH"(1) [OF True None this "1.prems"(2,3)] True None show ?thesis
        by (simp add: callbacks_forEach.simps [of subs m i w])
    next
      case (Some d)
      obtain xs' where xs: "xs = d # xs'" and rest: "members (drop (Suc i) (callbacks w)) = xs'"
        using members_drop_Some [OF True Some] "1.prems"(1) by simp
      from "1.prems"(3) xs have quiet: "\<not> raised (subs d m)" and self: "set (unsubscribed (subs d m)) \<subseteq> {d}"
        by simp_all
      from "1.prems"(2) xs have fresh: "d \<notin> set xs'" and dist: "distinct xs'"
        by simp_all
      let ?w1 = "snd (invoke subs d m w)"
      have nf: "\<not> fst (invoke subs d m w)" using quiet by (simp add: invoke_simps)
      have rest': "members (drop (Suc i) (callbacks ?w1)) = xs'"
        using filter_self_only [OF self fresh] by (simp only: members_drop_invoke rest)
      have all': "\<forall>x \<in> set xs'. \<not> raised (subs x m) \<and> set (unsubscribed (subs x m)) \<subseteq> {x}"
        using "1.prems"(3) xs by simp
      note ih = "1.IH"(2) [OF True Some refl nf rest' dist all']
      have step: "callbacks_forEach subs m i w = callbacks_forEach subs m (Suc i) ?w1"
        using True Some nf by (simp add: callbacks_forEach.simps [of subs m i w] Let_def)
      have mem1: "members (callbacks ?w1) = filter (\<lambda>x. x \<notin> set (unsubscribed (subs d m))) (members (callbacks w))"
        using members_drop_invoke [of 0] by simp
      have "filter (\<lambda>x. \<not> (x \<in> set xs' \<and> x \<in> set (unsubscribed (subs x m)))) (members (callbacks ?w1))
          = filter (\<lambda>x. \<not> (x \<in> set xs \<and> x \<in> set (unsubscribed (subs x m)))) (members (callbacks w))"
        unfolding mem1 filter_filter
      proof (rule filter_cong [OF refl])
        fix x
        show "(x \<notin> set (unsubscribed (subs d m)) \<and> \<not> (x \<in> set xs' \<and> x \<in> set (unsubscribed (subs x m))))
            = (\<not> (x \<in> set xs \<and> x \<in> set (unsubscribed (subs x m))))"
          using self fresh xs by auto
      qed
      with ih show ?thesis unfolding step by (simp add: invoke_simps xs)
    qed
  qed
qed



lemma show_toast_frame:
  "invoked (snd (show_toast kind plate w)) = invoked w"
  "callbacks (snd (show_toast kind plate w)) = callbacks w"
  by (simp_all add: show_toast_def split: option.splits)

lemma handleEventMessage_frame:
  "invoked (snd (handleEventMessage d w)) = invoked w"
  "callbacks (snd (handleEventMessage d w)) = callbacks w"
  by (simp_all add: handleEventMessage_def show_toast_frame Let_def split: sum.splits)




lemma Set_delete_absent: "Some c \<notin> set es \<Longrightarrow> Set_delete c es = es"
  by (induction es) (auto simp: Set_delete_def)


lemma distinct_members_Set_add:
  "distinct (members es) \<Longrightarrow> distinct (members (Set_add c es))"
  by (simp add: members_Set_add)

lemma distinct_members_Set_delete:
  "distinct (members es) \<Longrightarrow> distinct (members (Set_delete c es))"
  by (simp add: members_Set_delete distinct_removeAll)

lemma forEach_members_subset:
  "set (members (callbacks (snd (callbacks_forEach subs m i w)))) \<subseteq> set (members (callbacks w))"
proof (induction subs m i w rule: callbacks_forEach.induct)
  case (1 subs m i w)
  show ?case
  proof (cases "i < length (callbacks w)")
    case False
    then show ?thesis by (simp add: callbacks_forEach.simps [of subs m i w])
  next
    case True
    show ?thesis
    proof (cases "callbacks w ! i")
      case None
      with True "1.IH"(1) show ?thesis by (simp add: callbacks_forEach.simps [of subs m i w])
    next
      case (Some d)
      have inv: "set (members (callbacks (snd (invoke subs d m w)))) \<subseteq> set (members (callbacks w))"
        by (auto simp: invoke_simps members_fold_Set_delete)
      show ?thesis
      proof (cases "fst (invoke subs d m w)")
        case raised: True
        with True Some inv show ?thesis
          by (simp add: callbacks_forEach.simps [of subs m i w] Let_def)
      next
        case False
        from "1.IH"(2) [OF True Some refl False] inv
        have "set (members (callbacks (snd (callbacks_forEach subs m (Suc i) (snd (invoke subs d m w))))))
                \<subseteq> set (members (callbacks w))" by blast
        with True Some False show ?thesis
          by (simp add: callbacks_forEach.simps [of subs m i w] Let_def)
      qed
    qed
  qed
qed

lemma onmessage_try_callbacks:
  "callbacks (snd (ws_onmessage_try subs body w)) =
     (case body of Not_JSON \<Rightarrow> callbacks w | JSON m \<Rightarrow> callbacks (snd (callbacks_forEach subs m 0 w)))"
proof (cases body)
  case Not_JSON
  then show ?thesis by (simp add: ws_onmessage_try_def)
next
  case (JSON m)
  show ?thesis
  proof (cases "callbacks_forEach subs m 0 w")
    case (Pair r w1)
    with JSON show ?thesis
      by (cases r) (simp_all add: ws_onmessage_try_def handleEventMessage_frame split: sum.splits)
  qed
qed

lemma onmessage_callbacks:
  "callbacks (ws_onmessage subs body w) = callbacks (snd (ws_onmessage_try subs body w))"
proof (cases "ws_onmessage_try subs body w")
  case (Pair r w1)
  then show ?thesis by (cases r) (simp_all add: ws_onmessage_def say_def)
qed

lemma onmessage_members_subset:
  "set (members (callbacks (ws_onmessage subs body w))) \<subseteq> set (members (callbacks w))"
  using forEach_members_subset
  by (cases body) (simp_all add: onmessage_callbacks onmessage_try_callbacks)

lemma registry_do_absent:
  "c \<notin> set (members (callbacks w)) \<Longrightarrow> op \<noteq> Subscribe c \<Longrightarrow>
   c \<notin> set (members (callbacks (registry_do subs w op)))"
proof (cases op)
  case (Subscribe d)
  assume "c \<notin> set (members (callbacks w))" "op \<noteq> Subscribe c"
  with Subscribe show ?thesis by (auto simp: subscribe_def members_Set_add)
next
  case (Unsubscribe d)
  assume "c \<notin> set (members (callbacks w))"
  with Unsubscribe show ?thesis by (simp add: unsubscribe_def members_Set_delete)
next
  case (Frame body)
  assume "c \<notin> set (members (callbacks w))"
  with Frame onmessage_members_subset [of subs body w] show ?thesis by auto
qed

lemma registry_run_absent:
  "c \<notin> set (members (callbacks w)) \<Longrightarrow> Subscribe c \<notin> set ops \<Longrightarrow>
   c \<notin> set (members (callbacks (foldl (registry_do subs) w ops)))"
proof (induction ops rule: rev_induct)
  case Nil
  then show ?case by simp
next
  case (snoc op ops)
  then have "c \<notin> set (members (callbacks (foldl (registry_do subs) w ops)))" and "op \<noteq> Subscribe c"
    by auto
  then show ?case by (simp add: registry_do_absent)
qed

lemma unsubscribe_absent: "c \<notin> set (members (callbacks w)) \<Longrightarrow> unsubscribe c w = w"
  by (simp add: unsubscribe_def set_members Set_delete_absent)

lemma unsubscribe_removes: "c \<notin> set (members (callbacks (unsubscribe c w)))"
  by (simp add: unsubscribe_def members_Set_delete)

lemma unsubscribe_funpow: "(unsubscribe c ^^ n) (unsubscribe c w) = unsubscribe c w"
  by (induction n) (simp_all add: unsubscribe_absent unsubscribe_removes)

lemma unsubscribe_later:
  "Subscribe c \<notin> set ops \<Longrightarrow>
   unsubscribe c (foldl (registry_do subs) (unsubscribe c w) ops) = foldl (registry_do subs) (unsubscribe c w) ops"
  by (simp add: unsubscribe_absent registry_run_absent unsubscribe_removes)

lemma forEach_distinct:
  "distinct (members (callbacks w)) \<Longrightarrow>
   distinct (members (callbacks (snd (callbacks_forEach subs m i w))))"
proof (induction subs m i w rule: callbacks_forEach.induct)
  case (1 subs m i w)
  show ?case
  proof (cases "i < length (callbacks w)")
    case False
    with "1.prems" show ?thesis by (simp add: callbacks_forEach.simps [of subs m i w])
  next
    case True
    show ?thesis
    proof (cases "callbacks w ! i")
      case None
      with True "1.IH"(1) "1.prems" show ?thesis
        by (simp add: callbacks_forEach.simps [of subs m i w])
    next
      case (Some d)
      have inv: "distinct (members (callbacks (snd (invoke subs d m w))))"
        using "1.prems" by (simp add: invoke_simps members_fold_Set_delete)
      show ?thesis
      proof (cases "fst (invoke subs d m w)")
        case raised: True
        with True Some inv show ?thesis
          by (simp add: callbacks_forEach.simps [of subs m i w] Let_def)
      next
        case False
        from "1.IH"(2) [OF True Some refl False inv] True Some False show ?thesis
          by (simp add: callbacks_forEach.simps [of subs m i w] Let_def)
      qed
    qed
  qed
qed

lemma onmessage_distinct:
  "distinct (members (callbacks w)) \<Longrightarrow> distinct (members (callbacks (ws_onmessage subs body w)))"
  using forEach_distinct
  by (cases body) (simp_all add: onmessage_callbacks onmessage_try_callbacks)

lemma registry_do_distinct:
  "distinct (members (callbacks w)) \<Longrightarrow> distinct (members (callbacks (registry_do subs w op)))"
  by (cases op)
    (simp_all add: subscribe_def unsubscribe_def distinct_members_Set_add
      distinct_members_Set_delete onmessage_distinct)

lemma reachable_distinct:
  "distinct (members (callbacks (foldl (registry_do subs) initial ops)))"
proof (induction ops rule: rev_induct)
  case Nil
  show ?case by (simp add: initial_def)
next
  case (snoc op ops)
  then show ?case by (simp add: registry_do_distinct)
qed




lemma connect_when_open:
  "ws_readyState w = Some OPEN \<Longrightarrow> connect constructible w = say (Log ''WebSocket already connected'') w"
  by (simp add: connect_def)

section \<open>The reconciled lists\<close>

text \<open>
  C1 (as amended). Starting from a snapshot whose entries have distinct identities, the
  Sessions table never holds two entries with the same \<open>id\<close>, whatever session updates
  arrive, including an update that carries the \<open>id\<close> of an entry already in the table
  (it replaces that entry in place). The recent-events list holds no two entries with the
  same \<open>id\<close> provided the pushed events' identities are distinct from each other and from
  the snapshot's: its handler prepends without looking for an existing entry.
\<close>

theorem C1_distinct_identities:
  "(distinct (map id_s snapshot) \<longrightarrow> distinct (map id_s (Sessions_run pageSize updates snapshot))) \<and>
   (distinct (map id_ev (pushed messages @ evs)) \<longrightarrow> distinct (map id_ev (RecentEvents_run messages evs)))"
  by (simp add: Sessions_run_distinct RecentEvents_run_distinct del: map_append)

text \<open>
  C1, witness: a session update for the identity already in the table and one for a new
  identity; a pushed event with a new identity.
\<close>

theorem C1_distinct_identities_witness:
  "distinct (map id_s (Sessions_run 20 [sess ''s2'' ''XYZ'', sess ''s1'' ''NEW''] [sess ''s1'' ''OLD''])) \<and>
   distinct (map id_ev (RecentEvents_run [event_message (ev 3 ''2024-05-01T10:00:11Z'')]
                          [ev 1 ''2024-05-01T10:00:10Z'', ev 2 ''2024-05-01T10:00:09Z'']))"
  using C1_distinct_identities [of "[sess ''s1'' ''OLD'']" 20 "[sess ''s2'' ''XYZ'', sess ''s1'' ''NEW'']"
      "[event_message (ev 3 ''2024-05-01T10:00:11Z'')]"
      "[ev 1 ''2024-05-01T10:00:10Z'', ev 2 ''2024-05-01T10:00:09Z'']"]
  by (simp add: sess_def ev_def pushed_def event_message_def)

text \<open>
  C1 as stated fails on the recent-events list: with events 1 and 2 shown, a push that
  carries event 1 again gives a list with two entries of identity 1.
\<close>

theorem C1_recent_events_duplicate:
  "\<not> distinct (map id_ev (RecentEvents_run [event_message (ev 1 ''2024-05-01T10:00:10Z'')]
                            [ev 1 ''2024-05-01T10:00:10Z'', ev 2 ''2024-05-01T10:00:09Z'']))"
  by (simp add: RecentEvents_run_def RecentEvents_onMessage_def event_message_def slice_def ev_def)

text \<open>
  C2 (as amended). The recent-events list is ordered by arrival, not by timestamp: after
  at least one push it is the six latest arrivals, the latest first, followed by what is
  left of the snapshot, whatever the timestamps are. It is in descending timestamp order
  whenever the arrivals were: if the pushed events in reverse arrival order followed by the
  snapshot are in descending timestamp order, so is the list.
\<close>

theorem C2_arrival_order:
  "RecentEvents_run messages evs =
     (if pushed messages = [] then evs else take 6 (rev (pushed messages) @ evs)) \<and>
   (newest_first (rev (pushed messages) @ evs) \<longrightarrow> newest_first (RecentEvents_run messages evs))"
  using RecentEvents_run_pushed [of messages evs] RecentEvents_run_newest_first [of messages evs]
  by blast

text \<open>C2, witness: an event newer than the two shown arrives.\<close>

theorem C2_arrival_order_witness:
  "RecentEvents_run [event_message (ev 3 ''2024-05-01T10:00:11Z'')]
       [ev 1 ''2024-05-01T10:00:10Z'', ev 2 ''2024-05-01T10:00:09Z'']
     = [ev 3 ''2024-05-01T10:00:11Z'', ev 1 ''2024-05-01T10:00:10Z'', ev 2 ''2024-05-01T10:00:09Z''] \<and>
   newest_first (RecentEvents_run [event_message (ev 3 ''2024-05-01T10:00:11Z'')]
       [ev 1 ''2024-05-01T10:00:10Z'', ev 2 ''2024-05-01T10:00:09Z''])"
  using C2_arrival_order [of "[event_message (ev 3 ''2024-05-01T10:00:11Z'')]"
      "[ev 1 ''2024-05-01T10:00:10Z'', ev 2 ''2024-05-01T10:00:09Z'']"]
  by (simp add: pushed_def event_message_def newest_first_def ev_def)

text \<open>
  C2 as stated fails: an event stamped 10:00:09 that arrives while the list shows an
  event stamped 10:00:10 is placed ahead of it.
\<close>

theorem C2_stale_event_first:
  "\<not> newest_first (RecentEvents_run [event_message (ev 2 ''2024-05-01T10:00:09Z'')]
                      [ev 1 ''2024-05-01T10:00:10Z''])"
  by (simp add: RecentEvents_run_def RecentEvents_onMessage_def event_message_def slice_def
      newest_first_def ev_def)

text \<open>
  C3 (as amended). The recent-events list never holds more than 6 entries once the
  snapshot held at most 6, and the Sessions table never more than \<open>pageSize\<close> entries
  when \<open>pageSize\<close> is at least 1 and the snapshot held at most \<open>pageSize\<close>. What an
  insertion drops is decided by position, not by ordering key: the recent-events list
  keeps the first 5 entries behind the new one, the Sessions table the first
  \<open>pageSize - 1\<close> behind a session with a new identity.
\<close>

theorem C3_capacity_positional_eviction:
  "(length evs \<le> 6 \<longrightarrow> length (RecentEvents_run messages evs) \<le> 6) \<and>
   RecentEvents_onMessage (event_message e) evs = e # take 5 evs \<and>
   (1 \<le> pageSize \<and> int (length snapshot) \<le> pageSize \<longrightarrow>
      int (length (Sessions_run pageSize updates snapshot)) \<le> pageSize) \<and>
   (1 \<le> pageSize \<and> id_s s \<notin> id_s ` set prev \<longrightarrow>
      handleSessionUpdate pageSize s prev = s # take (nat (pageSize - 1)) prev)"
  using RecentEvents_run_length [of evs messages] RecentEvents_push [of e evs]
    Sessions_run_length [of pageSize snapshot updates] handleSessionUpdate_fresh [of pageSize s prev]
  by blast

text \<open>
  C3, witness: a push onto a list of two events, and a session with a new identity
  arriving at a full table of two.
\<close>

theorem C3_capacity_positional_eviction_witness:
  "length (RecentEvents_run [event_message (ev 3 ''2024-05-01T10:00:11Z'')]
       [ev 1 ''2024-05-01T10:00:10Z'', ev 2 ''2024-05-01T10:00:09Z'']) \<le> 6 \<and>
   RecentEvents_onMessage (event_message (ev 3 ''2024-05-01T10:00:11Z''))
       [ev 1 ''2024-05-01T10:00:10Z'', ev 2 ''2024-05-01T10:00:09Z'']
     = [ev 3 ''2024-05-01T10:00:11Z'', ev 1 ''2024-05-01T10:00:10Z'', ev 2 ''2024-05-01T10:00:09Z''] \<and>
   int (length (Sessions_run 2 [sess ''s3'' ''NEW''] [sess ''s1'' ''A'', sess ''s2'' ''B''])) \<le> 2 \<and>
   handleSessionUpdate 2 (sess ''s3'' ''NEW'') [sess ''s1'' ''A'', sess ''s2'' ''B'']
     = [sess ''s3'' ''NEW'', sess ''s1'' ''A'']"
  using C3_capacity_positional_eviction [of
      "[ev 1 ''2024-05-01T10:00:10Z'', ev 2 ''2024-05-01T10:00:09Z'']"
      "[event_message (ev 3 ''2024-05-01T10:00:11Z'')]" "ev 3 ''2024-05-01T10:00:11Z''"
      2 "[sess ''s1'' ''A'', sess ''s2'' ''B'']" "[sess ''s3'' ''NEW'']"
      "sess ''s3'' ''NEW''" "[sess ''s1'' ''A'', sess ''s2'' ''B'']"]
  by (simp add: sess_def)

text \<open>
  C3 as stated fails: the full list below holds, in second place, an event stamped
  10:00:01, older than all the others. A new push drops the entry in last place, stamped
  10:00:16, and keeps the oldest one.
\<close>

theorem C3_oldest_entry_survives:
  "RecentEvents_onMessage (event_message (ev 8 ''2024-05-01T10:00:21Z''))
     [ev 7 ''2024-05-01T10:00:01Z'', ev 6 ''2024-05-01T10:00:20Z'', ev 5 ''2024-05-01T10:00:19Z'',
      ev 4 ''2024-05-01T10:00:18Z'', ev 3 ''2024-05-01T10:00:17Z'', ev 2 ''2024-05-01T10:00:16Z'']
   = [ev 8 ''2024-05-01T10:00:21Z'',
      ev 7 ''2024-05-01T10:00:01Z'', ev 6 ''2024-05-01T10:00:20Z'', ev 5 ''2024-05-01T10:00:19Z'',
      ev 4 ''2024-05-01T10:00:18Z'', ev 3 ''2024-05-01T10:00:17Z''] \<and>
   timestamp (ev 7 ''2024-05-01T10:00:01Z'') < timestamp (ev 2 ''2024-05-01T10:00:16Z'')"
  by (simp add: RecentEvents_onMessage_def event_message_def slice_def ev_def)

text \<open>
  C4 (as amended). Applying the same session update twice to the Sessions table gives the
  table that applying it once gives. The recent-events list prepends at every delivery:
  the same event message delivered twice stands twice at the head of the list.
\<close>

theorem C4_idempotence:
  "handleSessionUpdate pageSize s (handleSessionUpdate pageSize s prev) = handleSessionUpdate pageSize s prev \<and>
   RecentEvents_onMessage (event_message e) (RecentEvents_onMessage (event_message e) evs) = e # e # take 4 evs"
proof -
  have "take 5 (e # take 5 evs) = e # take 4 evs" by simp
  then show ?thesis by (simp add: handleSessionUpdate_idem RecentEvents_push)
qed

text \<open>C4, at a table of two sessions and a list of one event.\<close>

theorem C4_idempotence_witness:
  "handleSessionUpdate 20 (sess ''s1'' ''NEW'')
     (handleSessionUpdate 20 (sess ''s1'' ''NEW'') [sess ''s2'' ''B'', sess ''s1'' ''OLD''])
     = handleSessionUpdate 20 (sess ''s1'' ''NEW'') [sess ''s2'' ''B'', sess ''s1'' ''OLD''] \<and>
   RecentEvents_onMessage (event_message (ev 1 ''2024-05-01T10:00:10Z''))
     (RecentEvents_onMessage (event_message (ev 1 ''2024-05-01T10:00:10Z'')) [ev 2 ''2024-05-01T10:00:09Z''])
     = ev 1 ''2024-05-01T10:00:10Z'' # ev 1 ''2024-05-01T10:00:10Z'' # take 4 [ev 2 ''2024-05-01T10:00:09Z'']"
  by (rule C4_idempotence)

text \<open>
  C4 as stated fails on the recent-events list: the second delivery of an event message
  changes the empty list's successor from one entry to two.
\<close>

theorem C4_redelivery_duplicates:
  "RecentEvents_onMessage (event_message (ev 1 ''2024-05-01T10:00:10Z''))
     (RecentEvents_onMessage (event_message (ev 1 ''2024-05-01T10:00:10Z'')) [])
   \<noteq> RecentEvents_onMessage (event_message (ev 1 ''2024-05-01T10:00:10Z'')) []"
  by (simp add: RecentEvents_onMessage_def event_message_def slice_def)

text \<open>
  C7 (as amended). Nothing is buffered. A message is applied to the recent-events list
  at once, also while a fetch is in flight, and a fetch that resolves replaces the list
  whole, while starting a fetch and a fetch that fails leave the list as it is. So after
  any history the recent-events list is the result of the fetch that resolved last (the
  list at the start, if none has resolved since) with the messages delivered since then
  applied in order: a message delivered before a resolution shows afterwards only if the
  result itself holds its event. The active-sessions list is the result of the fetch
  that resolved last, untouched by messages and by a fetch that fails; a message's
  content is never applied to it, each message of type \<open>session\<close> or \<open>event\<close> only
  starts one more fetch.
\<close>

theorem C7_refetch_overwrites:
  "(\<not> list_ex is_Fetch_resolved later \<longrightarrow>
      events (foldl RecentEvents_do st later) = RecentEvents_run (delivered later) (events st) \<and>
      events (foldl RecentEvents_do st (steps @ Fetch_resolved items # later))
        = RecentEvents_run (delivered later) (or_empty items)) \<and>
   (\<not> list_ex is_AS_resolved alater \<longrightarrow>
      sessions (foldl ActiveSessions_do ast alater) = sessions ast \<and>
      sessions (foldl ActiveSessions_do ast (asteps @ AS_resolved aitems # alater)) = or_empty aitems) \<and>
   in_flight (foldl ActiveSessions_do ast (map AS_message ams))
     = in_flight ast + length (filter starts_fetch ams)"
  by (simp add: RecentEvents_do_unresolved RecentEvents_do_resolved
      ActiveSessions_do_unresolved ActiveSessions_do_resolved ActiveSessions_in_flight)

text \<open>
  C7, witness: a push arrives while the first fetch is in flight and that fetch fails
  (the push stays); the fetch resolves instead, and a later push arrives during a second
  fetch that fails (only the later push is on top of the result). Two messages reach
  ActiveSessions with one fetch in flight; the \<open>event\<close> one starts a second.
\<close>

theorem C7_refetch_overwrites_witness:
  "events (foldl RecentEvents_do RecentEvents_mounted
      [Fetch_started, Message (event_message (ev 3 ''2024-05-01T10:00:11Z'')), Fetch_rejected])
     = [ev 3 ''2024-05-01T10:00:11Z''] \<and>
   events (foldl RecentEvents_do RecentEvents_mounted
      ([Fetch_started, Message (event_message (ev 3 ''2024-05-01T10:00:11Z''))] @
       Fetch_resolved (Some [ev 1 ''2024-05-01T10:00:10Z'']) #
       [Fetch_started, Message (event_message (ev 4 ''2024-05-01T10:00:12Z'')), Fetch_rejected]))
     = [ev 4 ''2024-05-01T10:00:12Z'', ev 1 ''2024-05-01T10:00:10Z''] \<and>
   sessions (foldl ActiveSessions_do \<lparr>sessions = [], as_loading = True, in_flight = 1\<rparr>
      ([AS_message (event_message (ev 3 ''2024-05-01T10:00:11Z''))] @
       AS_resolved None # [AS_message (event_message (ev 4 ''2024-05-01T10:00:12Z'')), AS_rejected]))
     = [] \<and>
   in_flight (foldl ActiveSessions_do \<lparr>sessions = [], as_loading = True, in_flight = 1\<rparr>
      (map AS_message [event_message (ev 3 ''2024-05-01T10:00:11Z''),
                       \<lparr>mtype = Stats_msg, data = ev 4 ''2024-05-01T10:00:12Z''\<rparr>])) = 2"
  using C7_refetch_overwrites [of
      "[Fetch_started, Message (event_message (ev 3 ''2024-05-01T10:00:11Z'')), Fetch_rejected]"
      RecentEvents_mounted "[]" None
      "[]" "\<lparr>sessions = [], as_loading = True, in_flight = 1\<rparr>" "[]" None
      "[event_message (ev 3 ''2024-05-01T10:00:11Z''),
        \<lparr>mtype = Stats_msg, data = ev 4 ''2024-05-01T10:00:12Z''\<rparr>]"]
    C7_refetch_overwrites [of
      "[Fetch_started, Message (event_message (ev 4 ''2024-05-01T10:00:12Z'')), Fetch_rejected]"
      RecentEvents_mounted
      "[Fetch_started, Message (event_message (ev 3 ''2024-05-01T10:00:11Z''))]"
      "Some [ev 1 ''2024-05-01T10:00:10Z'']"
      "[AS_message (event_message (ev 4 ''2024-05-01T10:00:12Z'')), AS_rejected]"
      "\<lparr>sessions = [], as_loading = True, in_flight = 1\<rparr>"
      "[AS_message (event_message (ev 3 ''2024-05-01T10:00:11Z''))]" None "[]"]
  by (simp add: RecentEvents_run_def RecentEvents_onMessage_def event_message_def slice_def
      RecentEvents_mounted_def or_empty_def starts_fetch_def)

text \<open>
  C7 as stated fails: the component mounts and starts its fetch, event 3 is pushed, and
  the fetch resolves with events 1 and 2 (the page as it was before event 3). Event 3
  is then no longer in the list.
\<close>

theorem C7_push_during_refetch_lost:
  "ev 3 ''2024-05-01T10:00:11Z'' \<notin> set (events (foldl RecentEvents_do RecentEvents_mounted
      [Fetch_started, Message (event_message (ev 3 ''2024-05-01T10:00:11Z'')),
       Fetch_resolved (Some [ev 1 ''2024-05-01T10:00:10Z'', ev 2 ''2024-05-01T10:00:09Z''])]))"
  by (simp add: or_empty_def ev_def)

section \<open>The service\<close>




text \<open>
  C6, the code at the failing input. After one \<^verbatim>\<open>connect()\<close> the socket is
  \<open>CONNECTING\<close>; a second \<^verbatim>\<open>connect()\<close> before it opens passes the guard, constructs a
  second socket and makes it the current one, the first still connecting with its
  handlers attached.
\<close>

theorem C6_second_socket_while_connecting:
  "ws_readyState (connect True initial) = Some CONNECTING \<and>
   sockets (connect True (connect True initial)) = [CONNECTING, CONNECTING] \<and>
   ws (connect True (connect True initial)) = Some 1"
  by (simp add: connect_def ws_readyState_def initial_def)

text \<open>
  C8 (as amended). A frame whose body is not JSON is dropped and logged: the handler
  returns with one more console line and nothing else changed, so no callback was called
  and the socket, its state and the callback set are as before. (A body that is JSON but
  not a message of the declared shape is not dropped: see the next theorem.)
\<close>

theorem C8_unparseable_frame_dropped:
  "ws_onmessage subs Not_JSON w = w\<lparr>console := console w @ [Error ''Error parsing WebSocket message:'']\<rparr>"
  by (simp add: ws_onmessage_def ws_onmessage_try_def say_def)

text \<open>C8, with one subscriber registered.\<close>

theorem C8_unparseable_frame_dropped_witness:
  "ws_onmessage quiet Not_JSON (subscribe 1 initial)
     = (subscribe 1 initial)\<lparr>console := console (subscribe 1 initial) @ [Error ''Error parsing WebSocket message:'']\<rparr>"
  by (rule C8_unparseable_frame_dropped)

text \<open>
  C8 as stated fails: the body \<^verbatim>\<open>{}\<close> is JSON but has neither \<open>type\<close> nor \<open>data\<close>, and the
  registered subscriber is called with it.
\<close>

theorem C8_non_envelope_json_delivered:
  "\<not> parseable_as_envelope (JSON (JObject [])) \<and>
   invoked (ws_onmessage quiet (JSON (JObject [])) (subscribe 1 initial)) = [(1, JObject [])]"
  by code_simp

text \<open>
  C9 (as amended). Calling an unsubscribe handle again, any number of times, changes
  nothing; so does a call at any later time, after any subscriptions of other callbacks,
  unsubscriptions and dispatches, as long as the same callback has not been subscribed
  again in between, and so does any call while the callback is not registered. In a
  dispatch in which subscribers call their own unsubscribe handle from inside their
  callback (and none throws), every subscriber registered at the start still receives the
  message exactly once, in registration order, and afterwards exactly those that
  unsubscribed are gone.
\<close>

theorem C9_unsubscribe_safe:
  "(unsubscribe c ^^ n) (unsubscribe c w) = unsubscribe c w \<and>
   (Subscribe c \<notin> set ops \<longrightarrow>
      unsubscribe c (foldl (registry_do subs) (unsubscribe c w) ops)
        = foldl (registry_do subs) (unsubscribe c w) ops) \<and>
   (c \<notin> set (members (callbacks w)) \<longrightarrow> unsubscribe c w = w) \<and>
   (distinct (members (callbacks w)) \<and>
    (\<forall>x \<in> set (members (callbacks w)). \<not> raised (subs x m) \<and> set (unsubscribed (subs x m)) \<subseteq> {x})
    \<longrightarrow> fst (callbacks_forEach subs m 0 w) = None \<and>
        invoked (snd (callbacks_forEach subs m 0 w)) = invoked w @ map (\<lambda>x. (x, m)) (members (callbacks w)) \<and>
        members (callbacks (snd (callbacks_forEach subs m 0 w)))
          = filter (\<lambda>x. x \<notin> set (unsubscribed (subs x m))) (members (callbacks w)))"
proof (intro conjI impI)
  show "(unsubscribe c ^^ n) (unsubscribe c w) = unsubscribe c w"
    by (rule unsubscribe_funpow)
  show "unsubscribe c (foldl (registry_do subs) (unsubscribe c w) ops)
        = foldl (registry_do subs) (unsubscribe c w) ops" if "Subscribe c \<notin> set ops"
    using that by (rule unsubscribe_later)
  show "unsubscribe c w = w" if "c \<notin> set (members (callbacks w))"
    using that by (rule unsubscribe_absent)
next
  assume h: "distinct (members (callbacks w)) \<and>
    (\<forall>x \<in> set (members (callbacks w)). \<not> raised (subs x m) \<and> set (unsubscribed (subs x m)) \<subseteq> {x})"
  have mem: "members (drop 0 (callbacks w)) = members (callbacks w)" by simp
  have r: "fst (callbacks_forEach subs m 0 w) = None \<and>
     invoked (snd (callbacks_forEach subs m 0 w)) = invoked w @ map (\<lambda>x. (x, m)) (members (callbacks w)) \<and>
     members (callbacks (snd (callbacks_forEach subs m 0 w))) =
       filter (\<lambda>x. \<not> (x \<in> set (members (callbacks w)) \<and> x \<in> set (unsubscribed (subs x m))))
         (members (callbacks w))"
    using mem conjunct1 [OF h] conjunct2 [OF h] by (rule forEach_all_quiet)
  have f: "filter (\<lambda>x. \<not> (x \<in> set (members (callbacks w)) \<and> x \<in> set (unsubscribed (subs x m))))
         (members (callbacks w)) = filter (\<lambda>x. x \<notin> set (unsubscribed (subs x m))) (members (callbacks w))"
    by (rule filter_cong) auto
  show "fst (callbacks_forEach subs m 0 w) = None" using r by simp
  show "invoked (snd (callbacks_forEach subs m 0 w)) = invoked w @ map (\<lambda>x. (x, m)) (members (callbacks w))"
    using r by simp
  show "members (callbacks (snd (callbacks_forEach subs m 0 w)))
          = filter (\<lambda>x. x \<notin> set (unsubscribed (subs x m))) (members (callbacks w))"
    using r f by simp
qed

text \<open>
  C9, witness: subscribers 1, 2 and 3, of which 2 unsubscribes itself inside its
  callback; 1, 2 and 3 are called, and 1 and 3 remain. The handle of 2 is then called
  twice more, the second time after a subscription and a dispatch.
\<close>

theorem C9_unsubscribe_safe_witness:
  "(unsubscribe 2 ^^ 2) (unsubscribe 2 (subscribe 3 (subscribe 2 (subscribe 1 initial))))
     = unsubscribe 2 (subscribe 3 (subscribe 2 (subscribe 1 initial))) \<and>
   unsubscribe 2 (foldl (registry_do (leaver 2))
       (unsubscribe 2 (subscribe 3 (subscribe 2 (subscribe 1 initial))))
       [Subscribe 4, Frame (JSON entry_message)])
     = foldl (registry_do (leaver 2))
       (unsubscribe 2 (subscribe 3 (subscribe 2 (subscribe 1 initial))))
       [Subscribe 4, Frame (JSON entry_message)] \<and>
   invoked (snd (callbacks_forEach (leaver 2) entry_message 0 (subscribe 3 (subscribe 2 (subscribe 1 initial)))))
     = [(1, entry_message), (2, entry_message), (3, entry_message)] \<and>
   members (callbacks (snd (callbacks_forEach (leaver 2) entry_message 0
       (subscribe 3 (subscribe 2 (subscribe 1 initial)))))) = [1, 3]"
  using C9_unsubscribe_safe [of 2 2 "subscribe 3 (subscribe 2 (subscribe 1 initial))"
      "[Subscribe 4, Frame (JSON entry_message)]" "leaver 2" entry_message]
  by (simp add: subscribe_def Set_add_def initial_def leaver_def)

text \<open>
  C9 as stated fails: callback 1 subscribes, calls its handle, and subscribes again. A
  second call of the first handle is then not a no-op: it deletes the new registration,
  since the handle deletes by the callback's identity.
\<close>

theorem C9_old_handle_removes_new_registration:
  "members (callbacks (subscribe 1 (unsubscribe 1 (subscribe 1 initial)))) = [1] \<and>
   members (callbacks (unsubscribe 1 (subscribe 1 (unsubscribe 1 (subscribe 1 initial))))) = []"
  by (simp add: subscribe_def unsubscribe_def Set_add_def Set_delete_def initial_def)



end
